theory Spec2Isabelle
  imports Complex_Main "HOL-Library.Sublist"
begin

section \<open>thornpy: signal, utilities and numtype modules\<close>

text \<open>
  Conventions of the embedding.
  \<^item> Python floats are modelled as \<^typ>\<open>real\<close>: comparisons, sums and quotients are
    exact. Python integers are \<^typ>\<open>int\<close>; list positions and lengths are \<^typ>\<open>nat\<close>.
  \<^item> A Python \<open>str\<close> is a \<^typ>\<open>string\<close>, one \<^typ>\<open>char\<close> per character; the
    character predicates below are those of the ASCII range.
  \<^item> A raised exception is the left summand of the result type.
  \<^item> A leading underscore of a source name is dropped: \<open>_clean_sig\<close> is
    \<open>clean_sig\<close>, \<open>_find_nearest\<close> is \<open>find_nearest\<close>, and so on.
\<close>

datatype py_error =
    ValueError string
  | IndexError
  | TypeError
  | UnboundLocalError
  | ZeroDivisionError

subsection \<open>Python string primitives\<close>

text \<open>\<open>c.isdigit()\<close> on one ASCII character: the decimal digits.\<close>

definition isdigit_char :: "char \<Rightarrow> bool" where
  "isdigit_char c = (c \<in> set ''0123456789'')"

text \<open>\<open>s.isdigit()\<close>: at least one character, and every character a digit.\<close>

definition isdigit :: "string \<Rightarrow> bool" where
  "isdigit s = (s \<noteq> [] \<and> list_all isdigit_char s)"

text \<open>\<open>s.replace(c, '', 1)\<close> for a one-character \<open>c\<close>: the first occurrence of
  \<open>c\<close> is deleted, the rest of the string is kept.\<close>

fun replace_first :: "char \<Rightarrow> string \<Rightarrow> string" where
  "replace_first c [] = []"
| "replace_first c (x # xs) = (if x = c then xs else x # replace_first c xs)"

subsection \<open>numtype.py\<close>

definition str_is_float :: "string \<Rightarrow> bool" where
  "str_is_float numeric_string =
     (if numeric_string \<noteq> []
      then (if isdigit (replace_first CHR ''-'' (replace_first CHR ''.'' numeric_string))
            then True else False)
      else False)"

definition str_is_int :: "string \<Rightarrow> bool" where
  "str_is_int numeric_string =
     (if numeric_string \<noteq> []
      then (if isdigit (replace_first CHR ''-'' numeric_string) then True else False)
      else False)"

definition str_is_pos_float :: "string \<Rightarrow> bool" where
  "str_is_pos_float numeric_string =
     (if numeric_string \<noteq> []
      then (if isdigit (replace_first CHR ''.'' numeric_string) then True else False)
      else False)"

definition str_is_pos_int :: "string \<Rightarrow> bool" where
  "str_is_pos_int numeric_string =
     (if numeric_string \<noteq> []
      then (if isdigit numeric_string then True else False)
      else False)"

subsection \<open>signal.py: \<open>step_function\<close>\<close>

text \<open>The three list comprehensions of the source, concatenated in the source's order.
  The cubic of the middle comprehension is only evaluated for \<open>start < ind < end\<close>, where
  \<open>end - start\<close> is positive, so its division never has a zero denominator.
  The parameter \<open>end\<close> is written \<open>end'\<close>.\<close>

definition step_function :: "real list \<Rightarrow> real \<Rightarrow> real \<Rightarrow> real \<Rightarrow> real \<Rightarrow> real list" where
  "step_function index start init_val end' final_val =
     (let height = final_val - init_val in
        map (\<lambda>ind. init_val) (filter (\<lambda>ind. ind \<le> start) index)
      @ map (\<lambda>ind. init_val + height * ((ind - start) / (end' - start))\<^sup>2
                       * (3 - 2 * ((ind - start) / (end' - start))))
            (filter (\<lambda>ind. start < ind \<and> ind < end') index)
      @ map (\<lambda>ind. final_val) (filter (\<lambda>ind. ind \<ge> end') index))"

subsection \<open>\<open>str(n)\<close> for integers\<close>

text \<open>The decimal digits of a natural number, most significant first; \<open>digit_char\<close>
  is only applied to values below 10.\<close>

definition digit_char :: "nat \<Rightarrow> char" where
  "digit_char d = ''0123456789'' ! d"

fun str_nat :: "nat \<Rightarrow> string" where
  "str_nat n = (if n < 10 then [digit_char n] else str_nat (n div 10) @ [digit_char (n mod 10)])"

declare str_nat.simps [simp del]

definition str_int :: "int \<Rightarrow> string" where
  "str_int i = (if i < 0 then CHR ''-'' # str_nat (nat (- i)) else str_nat (nat i))"

subsection \<open>signal.py: \<open>check_num_points\<close>\<close>

text \<open>The candidate list \<open>[2**e for e in range(100)][::-1]\<close>: the powers of two from
  \<open>2**99\<close> down to \<open>2**0\<close>.\<close>

definition pow2_candidates :: "int list" where
  "pow2_candidates = rev (map (\<lambda>e. 2 ^ e) [0..<100])"

text \<open>The \<open>for\<close> loop: the first candidate with \<open>num >= pow_2\<close> leaves the loop by
  raising; \<open>None\<close> is the loop running to its end.\<close>

fun first_fit :: "int \<Rightarrow> int list \<Rightarrow> int option" where
  "first_fit num [] = None"
| "first_fit num (pow_2 # rest) = (if num \<ge> pow_2 then Some pow_2 else first_fit num rest)"

text \<open>The two f-strings of the source; they differ in the \<open>Try ...\<close> sentence only.\<close>

definition num_points_message :: "int \<Rightarrow> int \<Rightarrow> int option \<Rightarrow> string" where
  "num_points_message n_fft num suggested =
     ''n_fft ('' @ str_int n_fft @ '') must be less than the number of points in the signal (''
     @ str_int num @ '').''
     @ (case suggested of Some suggested_n \<Rightarrow> '' Try '' @ str_int suggested_n @ ''.'' | None \<Rightarrow> [])"

definition check_num_points :: "int \<Rightarrow> int \<Rightarrow> py_error + unit" where
  "check_num_points num n_fft =
     (if num < n_fft
      then Inl (ValueError (num_points_message n_fft num (first_fit num pow2_candidates)))
      else Inr ())"

subsection \<open>\<open>str.lower\<close>, \<open>str.startswith\<close>, \<open>str.endswith\<close>\<close>

definition lower_char :: "char \<Rightarrow> char" where
  "lower_char c =
     (case map_of (zip ''ABCDEFGHIJKLMNOPQRSTUVWXYZ'' ''abcdefghijklmnopqrstuvwxyz'') c of
        Some l \<Rightarrow> l
      | None \<Rightarrow> c)"

definition lower :: "string \<Rightarrow> string" where
  "lower s = map lower_char s"

definition startswith :: "string \<Rightarrow> string \<Rightarrow> bool" where
  "startswith s p = prefix p s"

definition endswith :: "string \<Rightarrow> string \<Rightarrow> bool" where
  "endswith s p = suffix p s"

subsection \<open>signal.py: \<open>_get_conversion_to_hz\<close>\<close>

text \<open>The \<open>if\<close>/\<open>elif\<close> chain has no \<open>else\<close>: when no branch assigns
  \<open>input_to_hz\<close>, the \<open>return\<close> reads an unassigned local and Python raises
  \<open>UnboundLocalError\<close>.\<close>

definition get_conversion_to_hz :: "string \<Rightarrow> py_error + real" where
  "get_conversion_to_hz input_unit =
     (if lower input_unit = ''rpm'' then Inr (1 / 60)
      else if lower input_unit = ''hz'' then Inr 1
      else if startswith (lower input_unit) ''deg''
              \<and> (endswith (lower input_unit) ''/s'' \<or> endswith (lower input_unit) ''/sec'')
           then Inr (1 / 360)
      else Inl UnboundLocalError)"

text \<open>The unit tags the specification lists as recognised (its section 4.3), compared
  without regard to case. This definition follows the specification's words, not the code.\<close>

definition spec_recognized_unit :: "string \<Rightarrow> bool" where
  "spec_recognized_unit tag =
     (lower tag \<in> set [''rpm'', ''hz'', ''deg/s'', ''degs/s'', ''deg/sec'', ''degs/sec''])"

subsection \<open>signal.py: \<open>get_window\<close>\<close>

text \<open>The four window functions imported from \<open>scipy.signal.windows\<close>.\<close>

datatype window_fn = hann | hamming | blackman | boxcar

text \<open>The argument is a name or \<open>None\<close>. The message of the last branch formats the
  argument, which is a name there, as \<open>None\<close> is accepted by the branch before.\<close>

definition get_window :: "string option \<Rightarrow> py_error + window_fn" where
  "get_window window =
     (if window = Some ''hanning'' then Inr hann
      else if window = Some ''hamming'' then Inr hamming
      else if window = Some ''blackman'' then Inr blackman
      else if window \<in> set [Some ''rectangular'', Some ''boxcar'', None] then Inr boxcar
      else Inl (ValueError
             ((case window of Some name \<Rightarrow> name | None \<Rightarrow> ''None'')
              @ '' not recognized as a window!'')))"

subsection \<open>signal.py: \<open>fft_watefall\<close>, the spectrogram call\<close>

text \<open>The keyword arguments that \<open>fft_watefall\<close> passes to \<open>Axes.specgram\<close> (line 143
  of the source). \<open>window\<close> is the argument of that name: \<open>None\<close> when the call does not
  pass it.\<close>

record specgram_call =
  NFFT :: int
  Fs :: real
  noverlap :: real
  detrend :: string
  mode :: string
  scale :: string
  cmap :: string
  window :: "window_fn option"

text \<open>Lines 133 to 143: the window-size check, the sample interval \<open>t_s\<close> and rate
  \<open>f_s\<close> (Python raises on an empty \<open>time\<close> and on a zero divisor), then the call.
  \<open>fft_watefall\<close> has no window parameter, and the call passes none; the line that
  passed \<open>window=get_window(window)\<close> is commented out in the source.\<close>

definition fft_watefall_specgram_call ::
  "real list \<Rightarrow> real \<Rightarrow> int \<Rightarrow> bool \<Rightarrow> string \<Rightarrow> py_error + specgram_call" where
  "fft_watefall_specgram_call time percent_overlap n_fft psd z_scale =
     (case check_num_points (int (length time)) n_fft of
        Inl e \<Rightarrow> Inl e
      | Inr _ \<Rightarrow>
          if time = [] then Inl IndexError
          else if length time = 1 then Inl ZeroDivisionError
          else let t_s = (last time - hd time) / (real (length time) - 1) in
            if t_s = 0 then Inl ZeroDivisionError
            else Inr \<lparr>NFFT = n_fft, Fs = 1 / t_s,
                      noverlap = percent_overlap / 100 * real_of_int n_fft,
                      detrend = ''mean'',
                      mode = (if \<not> psd then ''magnitude'' else ''psd''),
                      scale = z_scale, cmap = ''nipy_spectral'', window = None\<rparr>)"

text \<open>The window \<open>Axes.specgram\<close> applies: the one passed, and matplotlib's documented
  default \<open>window_hanning\<close> when none is passed.\<close>

definition specgram_window :: "specgram_call \<Rightarrow> window_fn" where
  "specgram_window call = (case window call of Some w \<Rightarrow> w | None \<Rightarrow> hann)"

subsection \<open>numpy: \<open>argmax\<close> and \<open>argmin\<close>\<close>

text \<open>Both return the first position of the extreme value.\<close>

fun first_index :: "('a \<Rightarrow> bool) \<Rightarrow> 'a list \<Rightarrow> nat" where
  "first_index P [] = 0"
| "first_index P (x # xs) = (if P x then 0 else Suc (first_index P xs))"

definition np_argmax :: "'a::linorder list \<Rightarrow> nat" where
  "np_argmax xs = first_index (\<lambda>x. x = Max (set xs)) xs"

definition np_argmin :: "'a::linorder list \<Rightarrow> nat" where
  "np_argmin xs = first_index (\<lambda>x. x = Min (set xs)) xs"

subsection \<open>signal.py: \<open>fft_watefall\<close>, input-speed bins\<close>

text \<open>Lines 192 to 196. \<open>bins\<close> are the time-bin centres returned by \<open>specgram\<close>.
  \<open>time >= t_bn + time[0]\<close> is the elementwise comparison, an array of booleans, whose
  \<open>argmax\<close> is the position of the first \<open>True\<close>, and 0 when there is none.
  The result is the pair \<open>(input_sig_rpm, input_bins)\<close>.\<close>

definition fft_watefall_input_bins ::
  "real list \<Rightarrow> real list \<Rightarrow> real \<Rightarrow> real list \<Rightarrow> py_error + (real list \<times> real list)" where
  "fft_watefall_input_bins time input_sig input_conversion_factor bins =
     (if length input_sig \<noteq> length time
      then Inl (ValueError ''Input signal must be the same lenght as the response signel.'')
      else if time = [] \<and> bins \<noteq> [] then Inl IndexError
      else
        let input_sig_rpm = map (\<lambda>v. \<bar>v * input_conversion_factor\<bar>) input_sig;
            input_bins =
              map (\<lambda>t_bn. \<bar>input_sig_rpm ! np_argmax (map (\<lambda>t. t \<ge> t_bn + time ! 0) time)\<bar>)
                bins
        in Inr (input_sig_rpm, input_bins))"

subsection \<open>scipy: \<open>find_peaks\<close> with a \<open>threshold\<close>\<close>

text \<open>\<open>find_peaks\<close> is SciPy's, not this repository's. It is modelled from SciPy's
  implementation for the one way \<open>_clean_sig\<close> calls it, \<open>find_peaks(x, threshold=t)\<close>
  with a number \<open>t\<close>: first all local maxima (\<open>_local_maxima_1d\<close>), then the threshold
  filter (\<open>_select_by_peak_threshold\<close>).

  \<open>_local_maxima_1d\<close> walks \<open>i\<close> from 1 while \<open>i < len(x) - 1\<close>. When \<open>x[i-1] < x[i]\<close>
  it looks ahead over samples equal to \<open>x[i]\<close> (a plateau), and when the sample after the
  plateau is smaller it records the plateau's midpoint and continues behind the plateau.
  \<open>i + 1 < length x\<close> is the source's \<open>i < i_max\<close> with \<open>i_max = len(x) - 1\<close>, written
  without subtraction on \<^typ>\<open>nat\<close>.\<close>

function look_ahead :: "real list \<Rightarrow> nat \<Rightarrow> nat \<Rightarrow> nat" where
  "look_ahead x i i_ahead =
     (if i_ahead + 1 < length x \<and> x ! i_ahead = x ! i
      then look_ahead x i (i_ahead + 1)
      else i_ahead)"
  by pat_completeness auto
termination
  by (relation "measure (\<lambda>(x, i, i_ahead). length x - i_ahead)") auto

declare look_ahead.simps [simp del]

function local_maxima_from :: "real list \<Rightarrow> nat \<Rightarrow> nat list" where
  "local_maxima_from x i =
     (if i + 1 < length x
      then (if x ! (i - 1) < x ! i
            then (if x ! look_ahead x i (i + 1) < x ! i
                  then (i + (look_ahead x i (i + 1) - 1)) div 2
                       # local_maxima_from x (look_ahead x i (i + 1) + 1)
                  else local_maxima_from x (i + 1))
            else local_maxima_from x (i + 1))
      else [])"
  by pat_completeness auto
termination
proof -
  have ge: "i_ahead \<le> look_ahead x i i_ahead" for x i i_ahead
  proof (induction x i i_ahead rule: look_ahead.induct)
    case (1 x i i_ahead)
    show ?case
    proof (cases "i_ahead + 1 < length x \<and> x ! i_ahead = x ! i")
      case True
      with 1 have "i_ahead + 1 \<le> look_ahead x i (i_ahead + 1)" by simp
      moreover from True have "look_ahead x i i_ahead = look_ahead x i (i_ahead + 1)"
        by (subst look_ahead.simps) auto
      ultimately show ?thesis by simp
    next
      case False
      then have "look_ahead x i i_ahead = i_ahead"
        by (subst look_ahead.simps) auto
      then show ?thesis by simp
    qed
  qed
  show ?thesis
  proof (relation "measure (\<lambda>(x, i). length x - i)")
    show "wf (measure (\<lambda>(x, i). length x - i))" by simp
  next
    fix x :: "real list" and i :: nat
    assume "i + 1 < length x"
    moreover have "i + 1 \<le> look_ahead x i (i + 1)" by (rule ge)
    ultimately show "((x, look_ahead x i (i + 1) + 1), (x, i))
        \<in> measure (\<lambda>(x, i). length x - i)"
      by simp
  next
    fix x :: "real list" and i :: nat
    assume "i + 1 < length x"
    then show "((x, i + 1), (x, i)) \<in> measure (\<lambda>(x, i). length x - i)" by simp
  next
    fix x :: "real list" and i :: nat
    assume "i + 1 < length x"
    then show "((x, i + 1), (x, i)) \<in> measure (\<lambda>(x, i). length x - i)" by simp
  qed
qed

declare local_maxima_from.simps [simp del]

text \<open>The threshold filter keeps a peak when the smaller of its two vertical distances to
  the neighbouring samples is at least the threshold.\<close>

definition find_peaks :: "real list \<Rightarrow> real \<Rightarrow> nat list" where
  "find_peaks x threshold =
     filter (\<lambda>p. threshold \<le> min (x ! p - x ! (p - 1)) (x ! p - x ! (p + 1)))
       (local_maxima_from x 1)"

subsection \<open>numpy: \<open>mean\<close>, \<open>std\<close> and indexing\<close>

definition np_mean :: "real list \<Rightarrow> real" where
  "np_mean xs = sum_list xs / real (length xs)"

text \<open>The population standard deviation (\<open>ddof = 0\<close>).\<close>

definition np_std :: "real list \<Rightarrow> real" where
  "np_std xs = sqrt (np_mean (map (\<lambda>v. \<bar>v - np_mean xs\<bar>\<^sup>2) xs))"

text \<open>\<open>a[i]\<close>: a negative index counts from the end; outside \<open>-len(a) .. len(a) - 1\<close>
  numpy raises \<open>IndexError\<close>.\<close>

definition np_getitem :: "real list \<Rightarrow> int \<Rightarrow> py_error + real" where
  "np_getitem a i =
     (let n = int (length a); j = (if i < 0 then i + n else i)
      in if 0 \<le> j \<and> j < n then Inr (a ! nat j) else Inl IndexError)"

subsection \<open>signal.py: \<open>_clean_sig\<close>\<close>

text \<open>The \<open>for\<close> loop over the peaks: it reads both neighbours from the array as updated
  so far and stores their mean at the peak.\<close>

fun clean_loop :: "real list \<Rightarrow> nat list \<Rightarrow> py_error + real list" where
  "clean_loop sig [] = Inr sig"
| "clean_loop sig (i_pk # rest) =
     (case np_getitem sig (int i_pk - 1) of
        Inl e \<Rightarrow> Inl e
      | Inr left \<Rightarrow>
          (case np_getitem sig (int i_pk + 1) of
             Inl e \<Rightarrow> Inl e
           | Inr right \<Rightarrow>
               if i_pk < length sig
               then clean_loop (sig[i_pk := np_mean [left, right]]) rest
               else Inl IndexError))"

definition clean_sig :: "real list \<Rightarrow> real \<Rightarrow> py_error + (real list \<times> nat list)" where
  "clean_sig sig n_sigma =
     (let i_pks = find_peaks (map abs sig) (np_std sig * n_sigma)
      in case clean_loop sig i_pks of
           Inl e \<Rightarrow> Inl e
         | Inr cleaned \<Rightarrow> Inr (cleaned, i_pks))"

text \<open>The detection rule in the specification's words (its section 4.1): a sample that
  is a local maximum in absolute value and whose absolute value exceeds
  \<open>n_sigma\<close> times the standard deviation. This definition follows the specification, not
  the code.\<close>

definition spec_detected :: "real list \<Rightarrow> real \<Rightarrow> nat \<Rightarrow> bool" where
  "spec_detected sig n_sigma i =
     (0 < i \<and> i + 1 < length sig
      \<and> \<bar>sig ! (i - 1)\<bar> < \<bar>sig ! i\<bar> \<and> \<bar>sig ! (i + 1)\<bar> < \<bar>sig ! i\<bar>
      \<and> \<bar>sig ! i\<bar> > n_sigma * np_std sig)"

subsection \<open>\<open>str.split\<close> with a separator\<close>

text \<open>\<open>s.split(sep)\<close> for a non-empty \<open>sep\<close>: the string is scanned from the left,
  every occurrence of \<open>sep\<close> ends the current field and the scan continues behind it.
  The result always has at least one field. Python raises \<open>ValueError\<close> for an empty
  \<open>sep\<close>; \<open>read_data_string\<close> below checks that before it splits.\<close>

function split_acc :: "string \<Rightarrow> string \<Rightarrow> string \<Rightarrow> string list" where
  "split_acc sep field [] = [field]"
| "split_acc sep field (c # cs) =
     (if sep \<noteq> [] \<and> prefix sep (c # cs)
      then field # split_acc sep [] (drop (length sep) (c # cs))
      else split_acc sep (field @ [c]) cs)"
  by pat_completeness auto
termination
  by (relation "measure (\<lambda>(sep, field, s). length s)") auto

definition str_split :: "string \<Rightarrow> string \<Rightarrow> string list" where
  "str_split s sep = split_acc sep [] s"

subsection \<open>utilities.py: \<open>read_data_string\<close>\<close>

text \<open>A row is a Python \<open>dict\<close> from header to value.\<close>

type_synonym row = "string \<rightharpoonup> string"

text \<open>The block "Generate headers": the fields of the first line, or \<open>'1', '2', ...\<close>
  for as many fields as the first line has.\<close>

definition generate_headers :: "string list \<Rightarrow> string \<Rightarrow> bool \<Rightarrow> string list" where
  "generate_headers lines delimiter has_headerline =
     (if has_headerline then str_split (hd lines) delimiter
      else map (\<lambda>i. str_int (int i + 1)) [0..<length (str_split (hd lines) delimiter)])"

text \<open>The inner loop \<open>for header, value in zip(headers, ...): line_data[header] = value\<close>.\<close>

definition line_dict :: "string list \<Rightarrow> string list \<Rightarrow> row" where
  "line_dict headers vals =
     foldl (\<lambda>line_data (header, value). line_data(header \<mapsto> value)) Map.empty
       (zip headers vals)"

text \<open>The outer loop over the lines, with the list \<open>data\<close> built so far.\<close>

fun data_loop :: "string \<Rightarrow> string list \<Rightarrow> string list \<Rightarrow> row list \<Rightarrow> row list" where
  "data_loop delimiter headers [] data = data"
| "data_loop delimiter headers (line # lines) data =
     (if length (str_split line delimiter) = length headers
      then data_loop delimiter headers lines
             (data @ [line_dict headers (str_split line delimiter)])
      else data_loop delimiter headers lines data)"

text \<open>\<open>lines.pop(0)\<close> removes the header line from \<open>lines\<close>; without a header line the
  first line stays in \<open>lines\<close> and is read as data. The two \<open>split\<close> calls that come first
  raise for an empty separator.\<close>

definition read_data_string :: "string \<Rightarrow> string \<Rightarrow> string \<Rightarrow> bool \<Rightarrow> py_error + row list" where
  "read_data_string text delimiter newline has_headerline =
     (if newline = [] then Inl (ValueError ''empty separator'')
      else if delimiter = [] then Inl (ValueError ''empty separator'')
      else
        let lines = str_split text newline;
            headers = generate_headers lines delimiter has_headerline;
            lines = (if has_headerline then tl lines else lines)
        in Inr (data_loop delimiter headers lines []))"

subsection \<open>signal.py: \<open>_find_nearest\<close>\<close>

text \<open>\<open>argmin\<close> of an empty array raises \<open>ValueError\<close>.\<close>

definition find_nearest :: "real list \<Rightarrow> real \<Rightarrow> py_error + nat" where
  "find_nearest array val =
     (if array = [] then Inl (ValueError ''attempt to get argmin of an empty sequence'')
      else Inr (np_argmin (map (\<lambda>a. \<bar>a - val\<bar>) array)))"

subsection \<open>signal.py: \<open>_order_cut_plot\<close>\<close>

text \<open>A list comprehension whose elements may raise: the first exception ends it.\<close>

fun collect :: "(py_error + 'a) list \<Rightarrow> py_error + 'a list" where
  "collect [] = Inr []"
| "collect (r # rs) =
     (case r of
        Inl e \<Rightarrow> Inl e
      | Inr v \<Rightarrow> (case collect rs of Inl e \<Rightarrow> Inl e | Inr vs \<Rightarrow> Inr (v # vs)))"

text \<open>\<open>Pxx[i][j]\<close> on the two-dimensional array, rows indexed by frequency.\<close>

definition getitem2 :: "real list list \<Rightarrow> nat \<Rightarrow> nat \<Rightarrow> py_error + real" where
  "getitem2 Pxx i j =
     (if i < length Pxx \<and> j < length (Pxx ! i) then Inr (Pxx ! i ! j) else Inl IndexError)"

text \<open>What one subplot of the returned figure shows: the line drawn by
  \<open>ax.plot(input_sig, amp)\<close> and the order named in its title.\<close>

record order_axes =
  x_data :: "real list"
  y_data :: "real list"
  title_order :: real

text \<open>The body of the loop over the orders.\<close>

definition order_cut ::
  "real list \<Rightarrow> real list \<Rightarrow> real list list \<Rightarrow> real \<Rightarrow> real \<Rightarrow> py_error + order_axes" where
  "order_cut input_sig freqs Pxx input_to_hz order =
     (let freqs_to_plot = map (\<lambda>in_sig. in_sig * input_to_hz * order) input_sig
      in case collect (map (\<lambda>f. find_nearest freqs f) freqs_to_plot) of
           Inl e \<Rightarrow> Inl e
         | Inr i_freqs \<Rightarrow>
             (case collect (map (\<lambda>(i, j). getitem2 Pxx i j)
                             (zip i_freqs [0..<length input_sig])) of
                Inl e \<Rightarrow> Inl e
              | Inr amp \<Rightarrow> Inr \<lparr>x_data = input_sig, y_data = amp, title_order = order\<rparr>))"

text \<open>The figure is the list of its subplots. \<open>plt.subplots(nrows=n)\<close> is matplotlib's:
  it raises \<open>ValueError\<close> for \<open>n = 0\<close>, returns one \<open>Axes\<close> object for \<open>n = 1\<close>, over which
  \<open>zip(axes, orders)\<close> cannot iterate (\<open>TypeError\<close>), and an array of \<open>n\<close> axes
  otherwise. \<open>input_to_hz\<close> is the keyword argument of that name, \<open>1/60\<close> by default.\<close>

definition order_cut_plot ::
  "real list \<Rightarrow> real list \<Rightarrow> real list list \<Rightarrow> real list \<Rightarrow> real
     \<Rightarrow> py_error + order_axes list" where
  "order_cut_plot input_sig freqs Pxx orders input_to_hz =
     (if length orders = 0
      then Inl (ValueError ''Number of rows must be a positive integer, not 0'')
      else if length orders = 1 then Inl TypeError
      else collect (map (\<lambda>order. order_cut input_sig freqs Pxx input_to_hz order) orders))"

text \<open>The located row in the specification's words (its section 4.4): the entry of the
  frequency axis with minimum absolute difference to the expected frequency, the lowest
  such position on a tie. This definition follows the specification, not the code.\<close>

definition spec_nearest_row :: "real list \<Rightarrow> real \<Rightarrow> nat \<Rightarrow> bool" where
  "spec_nearest_row freqs f i =
     (i < length freqs
      \<and> (\<forall>m<length freqs. \<bar>freqs ! i - f\<bar> \<le> \<bar>freqs ! m - f\<bar>)
      \<and> (\<forall>m<i. \<bar>freqs ! i - f\<bar> < \<bar>freqs ! m - f\<bar>))"

section \<open>Properties\<close>

subsection \<open>Numeric-string classifiers\<close>

lemma replace_first_absent: "c \<notin> set s \<Longrightarrow> replace_first c s = s"
  by (induction s) auto

lemma minus_not_digit: "\<not> isdigit_char CHR ''-''"
  by (simp add: isdigit_char_def)

lemma dot_not_digit: "\<not> isdigit_char CHR ''.''"
  by (simp add: isdigit_char_def)

lemma isdigit_no_minus: "isdigit s \<Longrightarrow> CHR ''-'' \<notin> set s"
  using minus_not_digit by (auto simp: isdigit_def list_all_iff)

lemma isdigit_no_dot: "isdigit s \<Longrightarrow> CHR ''.'' \<notin> set s"
  using dot_not_digit by (auto simp: isdigit_def list_all_iff)

lemma set_replace_first: "set (replace_first c s) \<subseteq> set s"
  by (induction s) auto

lemma replace_first_other: "d \<noteq> c \<Longrightarrow> d \<in> set s \<Longrightarrow> d \<in> set (replace_first c s)"
  by (induction s) auto

lemma isdigit_replace_minus_no_dot:
  assumes "isdigit (replace_first CHR ''-'' s)"
  shows "CHR ''.'' \<notin> set s"
proof
  assume "CHR ''.'' \<in> set s"
  then have "CHR ''.'' \<in> set (replace_first CHR ''-'' s)"
    by (rule replace_first_other [rotated]) simp
  with isdigit_no_dot [OF assms] show False by simp
qed

text \<open>
  Claim C10. For every string: a positive-integer string is an integer string and a
  positive-float string; an integer string is a float string; and the empty string is
  rejected by all four classifiers.
\<close>

theorem numtype_hierarchy:
  "(str_is_pos_int s \<longrightarrow> str_is_int s \<and> str_is_pos_float s)
   \<and> (str_is_int s \<longrightarrow> str_is_float s)
   \<and> \<not> str_is_float [] \<and> \<not> str_is_int [] \<and> \<not> str_is_pos_float [] \<and> \<not> str_is_pos_int []"
proof -
  have a: "str_is_pos_int s \<longrightarrow> str_is_int s \<and> str_is_pos_float s"
    by (auto simp: str_is_pos_int_def str_is_int_def str_is_pos_float_def
        replace_first_absent isdigit_no_minus isdigit_no_dot)
  have b: "str_is_int s \<longrightarrow> str_is_float s"
  proof
    assume "str_is_int s"
    then have ne: "s \<noteq> []" and d: "isdigit (replace_first CHR ''-'' s)"
      by (auto simp: str_is_int_def split: if_splits)
    from d have "replace_first CHR ''.'' s = s"
      by (intro replace_first_absent isdigit_replace_minus_no_dot)
    with ne d show "str_is_float s"
      by (simp add: str_is_float_def)
  qed
  show ?thesis using a b
    by (simp add: str_is_float_def str_is_int_def str_is_pos_float_def str_is_pos_int_def)
qed

theorem numtype_hierarchy_witness:
  "str_is_pos_int ''42'' \<and> str_is_int ''42'' \<and> str_is_pos_float ''42''
   \<and> str_is_int ''-7'' \<and> str_is_float ''-7'' \<and> \<not> str_is_pos_int ''-7''"
  using numtype_hierarchy [of "''42''"] numtype_hierarchy [of "''-7''"]
  by (simp add: str_is_pos_int_def str_is_int_def isdigit_def isdigit_char_def)

subsection \<open>\<open>step_function\<close>\<close>

lemma length_filter_partition3:
  fixes a b :: real
  assumes "a < b"
  shows "length (filter (\<lambda>x. x \<le> a) xs) + length (filter (\<lambda>x. a < x \<and> x < b) xs)
         + length (filter (\<lambda>x. x \<ge> b) xs) = length xs"
  using assms by (induction xs) auto

lemma length_filter_split_eq:
  fixes a :: real
  shows "length (filter (\<lambda>x. x \<le> a) xs) + length (filter (\<lambda>x. x \<ge> a) xs)
         = length xs + length (filter (\<lambda>x. x = a) xs)"
  by (induction xs) auto

text \<open>
  Claim C8. When \<open>start < end\<close> every element of \<open>index\<close> yields exactly one output
  element, so the output is as long as the input. When \<open>start = end\<close> every element equal
  to that value is emitted twice (once as \<open>init_val\<close>, once as \<open>final_val\<close>), so the output
  is longer than the input by the number of such elements; the docstring's call
  \<open>step_function([2, 3, 3.5, 4, 5], 3, 0, 3, 1)\<close> returns six elements.
\<close>

theorem step_function_length:
  "(start < end' \<longrightarrow>
      length (step_function index start init_val end' final_val) = length index)
   \<and> (start = end' \<longrightarrow>
      length (step_function index start init_val end' final_val)
        = length index + length (filter (\<lambda>ind. ind = start) index)
      \<and> step_function index start init_val end' final_val
        = map (\<lambda>ind. init_val) (filter (\<lambda>ind. ind \<le> start) index)
          @ map (\<lambda>ind. final_val) (filter (\<lambda>ind. ind \<ge> start) index))
   \<and> step_function [2, 3, 7/2, 4, 5] 3 0 3 1 = [0, 0, 1, 1, 1, 1]
   \<and> length (step_function [2, 3, 7/2, 4, 5] 3 0 3 1) = 6"
proof -
  have lt: "start < end' \<longrightarrow>
      length (step_function index start init_val end' final_val) = length index"
  proof
    assume "start < end'"
    from length_filter_partition3 [OF this, of index]
    show "length (step_function index start init_val end' final_val) = length index"
      by (simp add: step_function_def)
  qed
  have eq: "start = end' \<longrightarrow>
      length (step_function index start init_val end' final_val)
        = length index + length (filter (\<lambda>ind. ind = start) index)
      \<and> step_function index start init_val end' final_val
        = map (\<lambda>ind. init_val) (filter (\<lambda>ind. ind \<le> start) index)
          @ map (\<lambda>ind. final_val) (filter (\<lambda>ind. ind \<ge> start) index)"
  proof
    assume e: "start = end'"
    have "filter (\<lambda>ind. start < ind \<and> ind < start) index = []"
      by (induction index) auto
    then have s: "step_function index start init_val start final_val
        = map (\<lambda>ind. init_val) (filter (\<lambda>ind. ind \<le> start) index)
          @ map (\<lambda>ind. final_val) (filter (\<lambda>ind. ind \<ge> start) index)"
      by (simp add: step_function_def)
    from length_filter_split_eq [of start index]
    have "length (step_function index start init_val start final_val)
        = length index + length (filter (\<lambda>ind. ind = start) index)"
      by (simp add: s)
    with s e show "length (step_function index start init_val end' final_val)
        = length index + length (filter (\<lambda>ind. ind = start) index)
      \<and> step_function index start init_val end' final_val
        = map (\<lambda>ind. init_val) (filter (\<lambda>ind. ind \<le> start) index)
          @ map (\<lambda>ind. final_val) (filter (\<lambda>ind. ind \<ge> start) index)"
      by simp
  qed
  have ex: "step_function [2, 3, 7/2, 4, 5] 3 0 3 1 = [0, 0, 1, 1, 1, 1]"
    by (simp add: step_function_def)
  have len: "length (step_function [2, 3, 7/2, 4, 5] 3 0 3 1) = 6"
    by (simp add: ex)
  from lt eq ex len show ?thesis by blast
qed

theorem step_function_length_witness:
  "(0::real) < 1 \<and> length (step_function [0, 1/2, 1] 0 0 1 1) = 3
   \<and> length (step_function [2, 3, 3] 3 0 3 1) = 5"
  using step_function_length [of 0 1 "[0, 1/2, 1]" 0 1]
    step_function_length [of 3 3 "[2, 3, 3]" 0 1]
  by simp

subsection \<open>\<open>check_num_points\<close>\<close>

lemma rev_pow2_Suc:
  "rev (map (\<lambda>e. (2::int) ^ e) [0..<Suc n]) = 2 ^ n # rev (map (\<lambda>e. 2 ^ e) [0..<n])"
  by simp

lemma first_fit_None:
  "first_fit num (rev (map (\<lambda>e. (2::int) ^ e) [0..<n])) = None \<longleftrightarrow> n = 0 \<or> num < 1"
proof (induction n)
  case 0
  then show ?case by simp
next
  case (Suc n)
  have "(1::int) \<le> 2 ^ n" by simp
  then have "num < 1 \<Longrightarrow> \<not> 2 ^ n \<le> num" by linarith
  moreover have "n = 0 \<Longrightarrow> \<not> 2 ^ n \<le> num \<Longrightarrow> num < 1" by simp
  ultimately show ?case
    unfolding rev_pow2_Suc using Suc.IH by (auto simp del: upt_Suc)
qed

lemma first_fit_Some:
  "first_fit num (rev (map (\<lambda>e. (2::int) ^ e) [0..<n])) = Some p \<Longrightarrow>
     \<exists>k<n. p = 2 ^ k \<and> 2 ^ k \<le> num \<and> (Suc k < n \<longrightarrow> num < 2 ^ Suc k)"
proof (induction n)
  case 0
  then show ?case by simp
next
  case (Suc n)
  show ?case
  proof (cases "2 ^ n \<le> num")
    case True
    with Suc.prems have "p = 2 ^ n"
      unfolding rev_pow2_Suc by simp
    with True show ?thesis by auto
  next
    case False
    with Suc.prems have "first_fit num (rev (map (\<lambda>e. (2::int) ^ e) [0..<n])) = Some p"
      unfolding rev_pow2_Suc by simp
    from Suc.IH [OF this] obtain k where k: "k < n" "p = 2 ^ k" "2 ^ k \<le> num"
      "Suc k < n \<longrightarrow> num < 2 ^ Suc k" by blast
    have "Suc k < Suc n \<longrightarrow> num < 2 ^ Suc k"
    proof
      assume "Suc k < Suc n"
      then consider "Suc k < n" | "Suc k = n" by linarith
      then show "num < 2 ^ Suc k"
        using k(4) False by cases auto
    qed
    with k show ?thesis by (intro exI [of _ k]) simp
  qed
qed

lemma first_fit_candidates_Some:
  assumes "1 \<le> num"
  shows "\<exists>k<100. first_fit num pow2_candidates = Some (2 ^ k) \<and> 2 ^ k \<le> num
           \<and> (k < 99 \<longrightarrow> num < 2 ^ Suc k)"
proof -
  from assms have "first_fit num pow2_candidates \<noteq> None"
    unfolding pow2_candidates_def by (simp only: first_fit_None) simp
  then obtain p where p: "first_fit num pow2_candidates = Some p" by blast
  from first_fit_Some [OF p [unfolded pow2_candidates_def]]
  obtain k where "k < 100" "p = 2 ^ k" "2 ^ k \<le> num" "Suc k < 100 \<longrightarrow> num < 2 ^ Suc k"
    by blast
  with p show ?thesis by (intro exI [of _ k]) auto
qed

lemma first_fit_candidates_None: "num < 1 \<Longrightarrow> first_fit num pow2_candidates = None"
  unfolding pow2_candidates_def by (simp only: first_fit_None) simp

lemma check_num_points_raises:
  "num < n_fft \<Longrightarrow>
     check_num_points num n_fft
       = Inl (ValueError (num_points_message n_fft num (first_fit num pow2_candidates)))"
  by (simp add: check_num_points_def)

lemma pow2_le_one:
  assumes "(2::int) ^ k \<le> 1"
  shows "k = 0"
proof (cases k)
  case 0
  then show ?thesis .
next
  case (Suc m)
  have "(1::int) \<le> 2 ^ m" by simp
  with assms Suc show ?thesis by simp
qed

text \<open>
  Claim C2, as stated, at one sample: \<open>2**0 = 1\<close> is among the candidates, so a signal of
  one sample still gets a suggestion (\<open>Try 1\<close>); and at \<open>2**100\<close> samples the suggestion
  is \<open>2**99\<close>, the largest candidate, not the largest power of two that fits.
\<close>

theorem check_num_points_counterexample:
  "check_num_points 1 2
     = Inl (ValueError
         ''n_fft (2) must be less than the number of points in the signal (1). Try 1.'')
   \<and> check_num_points (2 ^ 100) (2 ^ 100 + 1)
     = Inl (ValueError (num_points_message (2 ^ 100 + 1) (2 ^ 100) (Some (2 ^ 99))))"
proof -
  obtain k where k: "first_fit 1 pow2_candidates = Some (2 ^ k)" "(2::int) ^ k \<le> 1"
    using first_fit_candidates_Some [of 1] by auto
  from k(2) have "k = 0" by (rule pow2_le_one)
  with k(1) have one: "first_fit 1 pow2_candidates = Some 1" by simp
  have a: "check_num_points 1 2
     = Inl (ValueError
         ''n_fft (2) must be less than the number of points in the signal (1). Try 1.'')"
    by (simp add: check_num_points_def one num_points_message_def str_int_def
        str_nat.simps digit_char_def)
  obtain j where j: "j < 100" "first_fit (2 ^ 100) pow2_candidates = Some (2 ^ j)"
      "j < 99 \<longrightarrow> (2::int) ^ 100 < 2 ^ Suc j"
    using first_fit_candidates_Some [of "2 ^ 100"] by auto
  have "\<not> j < 99"
  proof
    assume l: "j < 99"
    with j(3) have "(2::int) ^ 100 < 2 ^ Suc j" by simp
    then have "100 < Suc j" by (simp only: power_strict_increasing_iff) 
    with l show False by simp
  qed
  with j(1) have "j = 99" by simp
  with j(2) have "first_fit (2 ^ 100) pow2_candidates = Some (2 ^ 99)" by simp
  then have b: "check_num_points (2 ^ 100) (2 ^ 100 + 1)
     = Inl (ValueError (num_points_message (2 ^ 100 + 1) (2 ^ 100) (Some (2 ^ 99))))"
    by (simp add: check_num_points_def)
  from a b show ?thesis by simp
qed

text \<open>
  Claim C2, amended. \<open>check_num_points\<close> raises exactly when \<open>n_fft\<close> exceeds the sample
  count (equal counts pass). The message names the first candidate that fits, taken from
  \<open>2**99\<close> down to \<open>2**0\<close>: for a sample count from 1 to below \<open>2**100\<close> that is the
  largest power of two not above the sample count, and from \<open>2**100\<close> on it is \<open>2**99\<close>.
  No candidate fits only when the sample count is below 1; then the message carries no
  suggestion.
\<close>

theorem check_num_points_spec:
  "(check_num_points num n_fft = Inr () \<longleftrightarrow> n_fft \<le> num)
   \<and> (num < n_fft \<longrightarrow> (\<exists>msg. check_num_points num n_fft = Inl (ValueError msg)))
   \<and> (num < n_fft \<and> 1 \<le> num \<and> num < 2 ^ 100 \<longrightarrow>
        (\<exists>k<100. 2 ^ k \<le> num \<and> num < 2 ^ Suc k
           \<and> check_num_points num n_fft
               = Inl (ValueError (num_points_message n_fft num (Some (2 ^ k))))))
   \<and> (num < n_fft \<and> 2 ^ 100 \<le> num \<longrightarrow>
        check_num_points num n_fft
          = Inl (ValueError (num_points_message n_fft num (Some (2 ^ 99)))))
   \<and> (num < n_fft \<and> num < 1 \<longrightarrow>
        check_num_points num n_fft = Inl (ValueError (num_points_message n_fft num None)))"
proof -
  have a: "check_num_points num n_fft = Inr () \<longleftrightarrow> n_fft \<le> num"
    by (auto simp: check_num_points_def)
  have b: "num < n_fft \<longrightarrow> (\<exists>msg. check_num_points num n_fft = Inl (ValueError msg))"
    by (simp add: check_num_points_def)
  have c: "num < n_fft \<and> 1 \<le> num \<and> num < 2 ^ 100 \<longrightarrow>
        (\<exists>k<100. 2 ^ k \<le> num \<and> num < 2 ^ Suc k
           \<and> check_num_points num n_fft
               = Inl (ValueError (num_points_message n_fft num (Some (2 ^ k)))))"
  proof
    assume h: "num < n_fft \<and> 1 \<le> num \<and> num < 2 ^ 100"
    then obtain k where k: "k < 100" "first_fit num pow2_candidates = Some (2 ^ k)"
        "2 ^ k \<le> num" "k < 99 \<longrightarrow> num < 2 ^ Suc k"
      using first_fit_candidates_Some [of num] by auto
    have "num < 2 ^ Suc k"
    proof (cases "k < 99")
      case True
      with k(4) show ?thesis by simp
    next
      case False
      with k(1) have "k = 99" by simp
      with h show ?thesis by simp
    qed
    with k h show "\<exists>k<100. 2 ^ k \<le> num \<and> num < 2 ^ Suc k
           \<and> check_num_points num n_fft
               = Inl (ValueError (num_points_message n_fft num (Some (2 ^ k))))"
      by (intro exI [of _ k]) (simp add: check_num_points_raises)
  qed
  have d: "num < n_fft \<and> 2 ^ 100 \<le> num \<longrightarrow>
        check_num_points num n_fft
          = Inl (ValueError (num_points_message n_fft num (Some (2 ^ 99))))"
  proof
    assume h: "num < n_fft \<and> 2 ^ 100 \<le> num"
    then have "1 \<le> num" by simp
    then obtain k where k: "k < 100" "first_fit num pow2_candidates = Some (2 ^ k)"
        "k < 99 \<longrightarrow> num < 2 ^ Suc k"
      using first_fit_candidates_Some [of num] by auto
    have "\<not> k < 99"
    proof
      assume l: "k < 99"
      with k(3) h have "(2::int) ^ 100 < 2 ^ Suc k" by simp
      then have "100 < Suc k" by (simp only: power_strict_increasing_iff)
      with l show False by simp
    qed
    with k(1) have "k = 99" by simp
    with k(2) h show "check_num_points num n_fft
          = Inl (ValueError (num_points_message n_fft num (Some (2 ^ 99))))"
      by (simp add: check_num_points_raises)
  qed
  have e: "num < n_fft \<and> num < 1 \<longrightarrow>
        check_num_points num n_fft = Inl (ValueError (num_points_message n_fft num None))"
    by (simp add: check_num_points_raises first_fit_candidates_None)
  from a b c d e show ?thesis by blast
qed

theorem check_num_points_spec_witness:
  "check_num_points 8 8 = Inr ()
   \<and> (5::int) < 8 \<and> (1::int) \<le> 5 \<and> (5::int) < 2 ^ 100
   \<and> (\<exists>k<100. (2::int) ^ k \<le> 5 \<and> (5::int) < 2 ^ Suc k
         \<and> check_num_points 5 8 = Inl (ValueError (num_points_message 8 5 (Some (2 ^ k)))))
   \<and> (0::int) < 8 \<and> (0::int) < 1
   \<and> check_num_points 0 8 = Inl (ValueError (num_points_message 8 0 None))"
  using check_num_points_spec [of 8 8] check_num_points_spec [of 5 8]
    check_num_points_spec [of 0 8]
  by simp

subsection \<open>\<open>_get_conversion_to_hz\<close>\<close>

lemma lower_examples:
  "lower ''RPM'' = ''rpm''" "lower ''Hz'' = ''hz''" "lower ''Deg/Sec'' = ''deg/sec''"
  "lower ''degrees/s'' = ''degrees/s''" "lower ''furlongs/fortnight'' = ''furlongs/fortnight''"
  by (simp_all add: lower_def lower_char_def)

text \<open>
  Claim C4, as stated, at the tag \<open>degrees/s\<close>: it is none of the recognised spellings,
  yet the code returns the factor \<open>1/360\<close> for it instead of raising.
\<close>

theorem get_conversion_to_hz_counterexample:
  "\<not> spec_recognized_unit ''degrees/s'' \<and> get_conversion_to_hz ''degrees/s'' = Inr (1 / 360)"
  by (simp add: spec_recognized_unit_def get_conversion_to_hz_def lower_examples
      startswith_def endswith_def suffix_to_prefix)

text \<open>What the code does with a tag that no branch accepts: the \<open>return\<close> finds
  \<open>input_to_hz\<close> unassigned.\<close>

lemma get_conversion_to_hz_unmatched:
  "get_conversion_to_hz ''furlongs/fortnight'' = Inl UnboundLocalError"
  by (simp add: get_conversion_to_hz_def lower_examples startswith_def)

text \<open>
  Claim C4, amended. Case-insensitively, the factor to Hz is \<open>1/60\<close> for \<open>rpm\<close>, \<open>1\<close>
  for \<open>hz\<close>, and \<open>1/360\<close> for every tag that starts with \<open>deg\<close> and ends with \<open>/s\<close>
  or \<open>/sec\<close>, which includes the four listed spellings. Converting a value tagged
  \<open>RPM\<close> and multiplying by 60 gives the value back within every tolerance.
\<close>

theorem get_conversion_to_hz_spec:
  "(lower tag = ''rpm'' \<longrightarrow> get_conversion_to_hz tag = Inr (1 / 60))
   \<and> (lower tag = ''hz'' \<longrightarrow> get_conversion_to_hz tag = Inr 1)
   \<and> (lower tag \<in> set [''deg/s'', ''degs/s'', ''deg/sec'', ''degs/sec'']
        \<longrightarrow> get_conversion_to_hz tag = Inr (1 / 360))
   \<and> (lower tag \<noteq> ''rpm'' \<and> lower tag \<noteq> ''hz'' \<and> startswith (lower tag) ''deg''
        \<and> (endswith (lower tag) ''/s'' \<or> endswith (lower tag) ''/sec'')
        \<longrightarrow> get_conversion_to_hz tag = Inr (1 / 360))
   \<and> (\<exists>f. get_conversion_to_hz ''RPM'' = Inr f
          \<and> (0 \<le> tolerance \<longrightarrow> \<bar>v * f * 60 - v\<bar> \<le> tolerance))"
proof -
  have a: "lower tag = ''rpm'' \<longrightarrow> get_conversion_to_hz tag = Inr (1 / 60)"
    by (simp add: get_conversion_to_hz_def)
  have b: "lower tag = ''hz'' \<longrightarrow> get_conversion_to_hz tag = Inr 1"
    by (simp add: get_conversion_to_hz_def)
  have c: "lower tag \<in> set [''deg/s'', ''degs/s'', ''deg/sec'', ''degs/sec'']
        \<longrightarrow> get_conversion_to_hz tag = Inr (1 / 360)"
  proof
    assume "lower tag \<in> set [''deg/s'', ''degs/s'', ''deg/sec'', ''degs/sec'']"
    then consider "lower tag = ''deg/s''" | "lower tag = ''degs/s''"
      | "lower tag = ''deg/sec''" | "lower tag = ''degs/sec''"
      by auto
    then show "get_conversion_to_hz tag = Inr (1 / 360)"
      by cases (simp_all add: get_conversion_to_hz_def startswith_def endswith_def
          suffix_to_prefix)
  qed
  have d: "lower tag \<noteq> ''rpm'' \<and> lower tag \<noteq> ''hz'' \<and> startswith (lower tag) ''deg''
        \<and> (endswith (lower tag) ''/s'' \<or> endswith (lower tag) ''/sec'')
        \<longrightarrow> get_conversion_to_hz tag = Inr (1 / 360)"
    by (simp add: get_conversion_to_hz_def)
  have rpm: "get_conversion_to_hz ''RPM'' = Inr (1 / 60)"
    by (simp add: get_conversion_to_hz_def lower_examples)
  have round_trip: "v * (1 / 60) * 60 = v" by simp
  have g: "\<exists>f. get_conversion_to_hz ''RPM'' = Inr f
          \<and> (0 \<le> tolerance \<longrightarrow> \<bar>v * f * 60 - v\<bar> \<le> tolerance)"
  proof (intro exI [of _ "1 / 60"] conjI impI)
    show "get_conversion_to_hz ''RPM'' = Inr (1 / 60)" by (rule rpm)
  next
    assume "0 \<le> tolerance"
    then show "\<bar>v * (1 / 60) * 60 - v\<bar> \<le> tolerance" by (simp only: round_trip)
  qed
  from a b c d g show ?thesis by blast
qed

theorem get_conversion_to_hz_spec_witness:
  "lower ''RPM'' = ''rpm'' \<and> get_conversion_to_hz ''RPM'' = Inr (1 / 60)
   \<and> lower ''Hz'' = ''hz'' \<and> get_conversion_to_hz ''Hz'' = Inr 1
   \<and> lower ''Deg/Sec'' \<in> set [''deg/s'', ''degs/s'', ''deg/sec'', ''degs/sec'']
   \<and> get_conversion_to_hz ''Deg/Sec'' = Inr (1 / 360)
   \<and> lower ''degrees/s'' \<noteq> ''rpm'' \<and> lower ''degrees/s'' \<noteq> ''hz''
   \<and> startswith (lower ''degrees/s'') ''deg'' \<and> endswith (lower ''degrees/s'') ''/s''
   \<and> get_conversion_to_hz ''degrees/s'' = Inr (1 / 360)
   \<and> (0::real) \<le> 1 / 1000000
   \<and> (\<exists>f. get_conversion_to_hz ''RPM'' = Inr f \<and> \<bar>1200 * f * 60 - 1200\<bar> \<le> 1 / 1000000)"
proof -
  have dg: "lower ''degrees/s'' \<noteq> ''rpm''" "lower ''degrees/s'' \<noteq> ''hz''"
    "startswith (lower ''degrees/s'') ''deg''" "endswith (lower ''degrees/s'') ''/s''"
    by (simp_all add: lower_examples startswith_def endswith_def suffix_to_prefix)
  have w: "\<exists>f. get_conversion_to_hz ''RPM'' = Inr f \<and> \<bar>1200 * f * 60 - 1200\<bar> \<le> 1 / 1000000"
    using get_conversion_to_hz_spec [of "''RPM''" "1 / 1000000" 1200] by simp
  from get_conversion_to_hz_spec [of "''RPM''"] get_conversion_to_hz_spec [of "''Hz''"]
    get_conversion_to_hz_spec [of "''Deg/Sec''"] get_conversion_to_hz_spec [of "''degrees/s''"]
    dg w
  show ?thesis by (simp add: lower_examples)
qed

subsection \<open>Window functions\<close>

lemma fft_watefall_window_fixed:
  "fft_watefall_specgram_call time percent_overlap n_fft psd z_scale = Inr call \<Longrightarrow>
     window call = None \<and> specgram_window call = hann"
  by (auto simp: fft_watefall_specgram_call_def specgram_window_def Let_def
      split: sum.splits if_splits)

text \<open>
  Claim C6, as stated, on a four-sample signal with \<open>n_fft = 4\<close>: the spectrogram call
  is made, it carries no window argument, and the window applied is therefore the
  plotting library's default Hann window, not the rectangular one.
\<close>

theorem fft_watefall_window_counterexample:
  "(case fft_watefall_specgram_call [0, 1, 2, 3] 50 4 False ''linear'' of
      Inr call \<Rightarrow> window call = None \<and> specgram_window call = hann
    | Inl e \<Rightarrow> False)
   \<and> hann \<noteq> boxcar"
  by (simp add: fft_watefall_specgram_call_def check_num_points_def specgram_window_def)

text \<open>
  Claim C6, amended. \<open>get_window\<close> selects a window function by name: \<open>hanning\<close>,
  \<open>hamming\<close> and \<open>blackman\<close> give the Hann, Hamming and Blackman windows, \<open>rectangular\<close>
  and \<open>boxcar\<close> give the rectangular window, which is also the result when no name is
  given; every other name raises a \<open>ValueError\<close> that quotes the name.
\<close>

theorem get_window_spec:
  "get_window (Some ''hanning'') = Inr hann
   \<and> get_window (Some ''hamming'') = Inr hamming
   \<and> get_window (Some ''blackman'') = Inr blackman
   \<and> get_window (Some ''rectangular'') = Inr boxcar
   \<and> get_window (Some ''boxcar'') = Inr boxcar
   \<and> get_window None = Inr boxcar
   \<and> (name \<notin> set [''hanning'', ''hamming'', ''blackman'', ''rectangular'', ''boxcar''] \<longrightarrow>
        get_window (Some name) = Inl (ValueError (name @ '' not recognized as a window!'')))"
proof -
  have named: "get_window (Some ''hanning'') = Inr hann"
    "get_window (Some ''hamming'') = Inr hamming"
    "get_window (Some ''blackman'') = Inr blackman"
    "get_window (Some ''rectangular'') = Inr boxcar"
    "get_window (Some ''boxcar'') = Inr boxcar"
    by (simp_all add: get_window_def)
  have unnamed: "get_window None = Inr boxcar"
    by (simp add: get_window_def)
  have other: "name \<notin> set [''hanning'', ''hamming'', ''blackman'', ''rectangular'', ''boxcar''] \<longrightarrow>
        get_window (Some name) = Inl (ValueError (name @ '' not recognized as a window!''))"
  proof
    assume "name \<notin> set [''hanning'', ''hamming'', ''blackman'', ''rectangular'', ''boxcar'']"
    then have "name \<noteq> ''hanning''" "name \<noteq> ''hamming''" "name \<noteq> ''blackman''"
      "name \<noteq> ''rectangular''" "name \<noteq> ''boxcar''"
      by simp_all
    then show "get_window (Some name)
        = Inl (ValueError (name @ '' not recognized as a window!''))"
      by (simp add: get_window_def)
  qed
  from named unnamed other show ?thesis by blast
qed

theorem get_window_spec_witness:
  "''kaiser'' \<notin> set [''hanning'', ''hamming'', ''blackman'', ''rectangular'', ''boxcar'']
   \<and> get_window (Some ''kaiser'') = Inl (ValueError ''kaiser not recognized as a window!'')"
  using get_window_spec [of "''kaiser''"] by simp

subsection \<open>Input-speed bins\<close>

lemma first_index_first:
  "i < length xs \<Longrightarrow> P (xs ! i) \<Longrightarrow> \<forall>j<i. \<not> P (xs ! j) \<Longrightarrow> first_index P xs = i"
proof (induction xs arbitrary: i)
  case Nil
  then show ?case by simp
next
  case (Cons x xs)
  show ?case
  proof (cases i)
    case 0
    with Cons.prems show ?thesis by simp
  next
    case (Suc m)
    with Cons.prems have "\<not> P x" by auto
    moreover have "first_index P xs = m"
    proof (rule Cons.IH)
      show "m < length xs" using Cons.prems Suc by simp
      show "P (xs ! m)" using Cons.prems Suc by simp
      show "\<forall>j<m. \<not> P (xs ! j)"
      proof (intro allI impI)
        fix j assume "j < m"
        then have "Suc j < i" using Suc by simp
        with Cons.prems(3) have "\<not> P ((x # xs) ! Suc j)" by blast
        then show "\<not> P (xs ! j)" by simp
      qed
    qed
    ultimately show ?thesis using Suc by simp
  qed
qed

lemma np_argmax_bool_first:
  assumes "i < length bs" and "bs ! i" and "\<forall>j<i. \<not> bs ! j"
  shows "np_argmax bs = i"
proof -
  from assms(1,2) have "True \<in> set bs"
    by (metis nth_mem)
  then have "True \<le> Max (set bs)"
    by (intro Max_ge) simp_all
  then have m: "Max (set bs) = True" by simp
  have "first_index (\<lambda>x. x = True) bs = i"
    using assms by (intro first_index_first) simp_all
  with m show ?thesis by (simp add: np_argmax_def)
qed

text \<open>
  Claim C5. For every time bin \<open>bins ! k\<close>: when \<open>i\<close> is the first sample position whose
  time is at least the bin value plus the time of the first sample, the input-speed value
  of the bin is the absolute value of the converted input sample at \<open>i\<close>. No
  interpolation and no distance to the bin enters.
\<close>

theorem input_bins_first_sample:
  assumes "length input_sig = length time"
    and "k < length bins"
    and "i < length time"
    and "time ! i \<ge> bins ! k + time ! 0"
    and "\<forall>j<i. \<not> time ! j \<ge> bins ! k + time ! 0"
  shows "\<exists>input_sig_rpm input_bins.
           fft_watefall_input_bins time input_sig input_conversion_factor bins
             = Inr (input_sig_rpm, input_bins)
           \<and> length input_bins = length bins
           \<and> input_bins ! k = \<bar>input_sig ! i * input_conversion_factor\<bar>"
proof -
  from assms(3) have ne: "time \<noteq> []" by auto
  let ?bs = "map (\<lambda>t. t \<ge> bins ! k + time ! 0) time"
  have "np_argmax ?bs = i"
    using assms(3,4,5) by (intro np_argmax_bool_first) simp_all
  with assms(1,2,3) ne show ?thesis
    by (simp add: fft_watefall_input_bins_def Let_def)
qed

theorem input_bins_first_sample_witness:
  "\<exists>input_sig_rpm input_bins.
     fft_watefall_input_bins [0, 1, 2, 3] [-60, 120, -180, 240] (1 / 6) [11 / 10]
       = Inr (input_sig_rpm, input_bins)
     \<and> length input_bins = length [11 / 10 :: real]
     \<and> input_bins ! 0 = \<bar>(- 180) * (1 / 6) :: real\<bar>"
proof -
  have "\<forall>j<2. \<not> [0, 1, 2, 3 :: real] ! j \<ge> [11 / 10] ! 0 + [0, 1, 2, 3] ! 0"
    by (simp add: less_Suc_eq numeral_2_eq_2)
  then show ?thesis
    using input_bins_first_sample [of "[-60, 120, -180, 240]" "[0, 1, 2, 3]" 0 "[11 / 10]" 2
        "1 / 6"]
    by simp
qed

subsection \<open>Peak positions and the signal cleaner\<close>

lemma look_ahead_ge: "i_ahead \<le> look_ahead x i i_ahead"
proof (induction x i i_ahead rule: look_ahead.induct)
  case (1 x i i_ahead)
  show ?case
  proof (cases "i_ahead + 1 < length x \<and> x ! i_ahead = x ! i")
    case True
    with 1 have "i_ahead + 1 \<le> look_ahead x i (i_ahead + 1)" by simp
    moreover from True have "look_ahead x i i_ahead = look_ahead x i (i_ahead + 1)"
      by (subst look_ahead.simps) auto
    ultimately show ?thesis by simp
  next
    case False
    then have "look_ahead x i i_ahead = i_ahead"
      by (subst look_ahead.simps) auto
    then show ?thesis by simp
  qed
qed

lemma look_ahead_in_range: "i_ahead < length x \<Longrightarrow> look_ahead x i i_ahead < length x"
proof (induction x i i_ahead rule: look_ahead.induct)
  case (1 x i i_ahead)
  show ?case
  proof (cases "i_ahead + 1 < length x \<and> x ! i_ahead = x ! i")
    case True
    with 1 have "look_ahead x i (i_ahead + 1) < length x" by simp
    moreover from True have "look_ahead x i i_ahead = look_ahead x i (i_ahead + 1)"
      by (subst look_ahead.simps) auto
    ultimately show ?thesis by simp
  next
    case False
    then have "look_ahead x i i_ahead = i_ahead"
      by (subst look_ahead.simps) auto
    with "1.prems" show ?thesis by simp
  qed
qed

lemma local_maxima_interior:
  "1 \<le> i \<Longrightarrow> p \<in> set (local_maxima_from x i) \<Longrightarrow> i \<le> p \<and> p + 1 < length x"
proof (induction x i rule: local_maxima_from.induct)
  case (1 x i)
  show ?case
  proof (cases "i + 1 < length x")
    case False
    with "1.prems" show ?thesis
      by (subst (asm) local_maxima_from.simps) simp
  next
    case in_range: True
    let ?a = "look_ahead x i (i + 1)"
    have a_ge: "i + 1 \<le> ?a" by (rule look_ahead_ge)
    have a_lt: "?a < length x" using in_range by (intro look_ahead_in_range) simp
    show ?thesis
    proof (cases "x ! (i - 1) < x ! i \<and> x ! ?a < x ! i")
      case True
      with in_range "1.prems"(2)
      consider "p = (i + (?a - 1)) div 2" | "p \<in> set (local_maxima_from x (?a + 1))"
        by (subst (asm) local_maxima_from.simps) auto
      then show ?thesis
      proof cases
        case 1
        with a_ge a_lt show ?thesis by auto
      next
        case 2
        from True in_range have "?a + 1 \<le> p \<and> p + 1 < length x"
          by (intro "1.IH"(1)) (use 2 in auto)
        with a_ge show ?thesis by simp
      qed
    next
      case False
      with in_range "1.prems"(2) have mem: "p \<in> set (local_maxima_from x (i + 1))"
        by (subst (asm) local_maxima_from.simps) (auto split: if_splits)
      have "i + 1 \<le> p \<and> p + 1 < length x"
      proof (cases "x ! (i - 1) < x ! i")
        case True
        with False in_range mem show ?thesis
          by (intro "1.IH"(2)) auto
      next
        case False
        with in_range mem show ?thesis
          by (intro "1.IH"(3)) auto
      qed
      then show ?thesis by simp
    qed
  qed
qed

lemma find_peaks_interior:
  "p \<in> set (find_peaks x threshold) \<Longrightarrow> 1 \<le> p \<and> p + 1 < length x"
  using local_maxima_interior [of 1 p x] by (simp add: find_peaks_def)

lemma np_getitem_in_range: "i < length a \<Longrightarrow> np_getitem a (int i) = Inr (a ! i)"
  by (simp add: np_getitem_def Let_def)

lemma clean_loop_total:
  "\<forall>p \<in> set i_pks. 1 \<le> p \<and> p + 1 < length sig \<Longrightarrow>
     \<exists>cleaned. clean_loop sig i_pks = Inr cleaned \<and> length cleaned = length sig"
proof (induction i_pks arbitrary: sig)
  case Nil
  then show ?case by simp
next
  case (Cons p ps)
  from Cons.prems have p: "1 \<le> p" "p + 1 < length sig" by auto
  then have l: "np_getitem sig (int p - 1) = Inr (sig ! (p - 1))"
    using np_getitem_in_range [of "p - 1" sig] by (simp add: of_nat_diff)
  from p have r: "np_getitem sig (int p + 1) = Inr (sig ! (p + 1))"
    using np_getitem_in_range [of "p + 1" sig] by (simp add: ac_simps)
  let ?sig' = "sig[p := np_mean [sig ! (p - 1), sig ! (p + 1)]]"
  from Cons.prems have "\<forall>q \<in> set ps. 1 \<le> q \<and> q + 1 < length ?sig'" by simp
  from Cons.IH [OF this] obtain cleaned where
    "clean_loop ?sig' ps = Inr cleaned" "length cleaned = length sig" by auto
  with l r p show ?case by simp
qed

lemma clean_sig_total:
  "\<exists>cleaned. clean_sig sig n_sigma
       = Inr (cleaned, find_peaks (map abs sig) (np_std sig * n_sigma))
     \<and> length cleaned = length sig"
proof -
  let ?pks = "find_peaks (map abs sig) (np_std sig * n_sigma)"
  have "\<forall>p \<in> set ?pks. 1 \<le> p \<and> p + 1 < length sig"
    using find_peaks_interior [of _ "map abs sig"] by simp
  from clean_loop_total [OF this] obtain cleaned where
    "clean_loop sig ?pks = Inr cleaned" "length cleaned = length sig" by blast
  then show ?thesis by (simp add: clean_sig_def)
qed

lemma local_maxima_examples:
  "local_maxima_from [100, 0, 0] 1 = []"
  "local_maxima_from [0, 0, 100] 1 = []"
  "local_maxima_from [0, 0, 100, 0, 0] 1 = [2]"
  "local_maxima_from [0, 10, 15, 10, 0] 1 = [2]"
  by (simp_all add: local_maxima_from.simps look_ahead.simps)

lemma find_peaks_boundary_examples:
  "find_peaks (map abs [100, 0, 0]) t = []"
  "find_peaks (map abs [0, 0, 100]) t = []"
  unfolding find_peaks_def by (simp_all only: list.map abs_numeral abs_zero
      local_maxima_examples filter.simps)

text \<open>
  Claim C7, as stated, is an existence claim; its negation holds. No signal makes the
  cleaner fail with an index error, and a largest sample at the first or at the last
  position is simply not detected.
\<close>

theorem clean_sig_boundary_counterexample:
  "\<not> (\<exists>sig n_sigma. clean_sig sig n_sigma = Inl IndexError)
   \<and> clean_sig [100, 0, 0] 1 = Inr ([100, 0, 0], [])
   \<and> clean_sig [0, 0, 100] 1 = Inr ([0, 0, 100], [])"
proof -
  have "clean_sig sig n_sigma \<noteq> Inl IndexError" for sig n_sigma
    using clean_sig_total [of sig n_sigma] by auto
  then have a: "\<not> (\<exists>sig n_sigma. clean_sig sig n_sigma = Inl IndexError)" by blast
  have b: "clean_sig [100, 0, 0] 1 = Inr ([100, 0, 0], [])"
    unfolding clean_sig_def find_peaks_boundary_examples by simp
  have c: "clean_sig [0, 0, 100] 1 = Inr ([0, 0, 100], [])"
    unfolding clean_sig_def find_peaks_boundary_examples by simp
  from a b c show ?thesis by blast
qed

lemma clean_loop_keeps:
  "clean_loop sig i_pks = Inr cleaned \<Longrightarrow> k \<notin> set i_pks \<Longrightarrow> cleaned ! k = sig ! k"
proof (induction i_pks arbitrary: sig)
  case Nil
  then show ?case by simp
next
  case (Cons p ps)
  from Cons.prems(2) have kp: "k \<noteq> p" and kps: "k \<notin> set ps" by auto
  from Cons.prems(1) obtain left right where
    step: "clean_loop (sig[p := np_mean [left, right]]) ps = Inr cleaned"
    by (auto split: sum.splits if_splits)
  from Cons.IH [OF step kps] have "cleaned ! k = (sig[p := np_mean [left, right]]) ! k" .
  with kp show ?case by simp
qed

text \<open>
  Claim C7, amended. For every signal, every detected peak lies strictly inside the
  signal: it is never position 0 and never the last position. Both neighbours of a
  detected peak therefore exist, and the cleaner returns a cleaned signal of the same
  length for every input; it never fails with an index error. Every sample that is not
  a detected peak is returned unchanged; in particular the first and the last sample
  stay in place, however extreme they are.
\<close>

theorem clean_sig_peaks_interior:
  "\<exists>cleaned i_pks. clean_sig sig n_sigma = Inr (cleaned, i_pks)
     \<and> length cleaned = length sig
     \<and> (\<forall>i \<in> set i_pks. 1 \<le> i \<and> i + 1 < length sig)
     \<and> (\<forall>k. k \<notin> set i_pks \<longrightarrow> cleaned ! k = sig ! k)
     \<and> 0 \<notin> set i_pks \<and> length sig - 1 \<notin> set i_pks
     \<and> cleaned ! 0 = sig ! 0 \<and> cleaned ! (length sig - 1) = sig ! (length sig - 1)"
proof -
  let ?pks = "find_peaks (map abs sig) (np_std sig * n_sigma)"
  have inner: "\<forall>i \<in> set ?pks. 1 \<le> i \<and> i + 1 < length sig"
    using find_peaks_interior [of _ "map abs sig"] by simp
  from clean_loop_total [OF inner] obtain cleaned where
    loop: "clean_loop sig ?pks = Inr cleaned" and len: "length cleaned = length sig"
    by blast
  from loop have c: "clean_sig sig n_sigma = Inr (cleaned, ?pks)"
    by (simp add: clean_sig_def)
  have keep: "\<forall>k. k \<notin> set ?pks \<longrightarrow> cleaned ! k = sig ! k"
    using clean_loop_keeps [OF loop] by blast
  have first: "0 \<notin> set ?pks"
    using inner by auto
  have final: "length sig - 1 \<notin> set ?pks"
  proof
    assume "length sig - 1 \<in> set ?pks"
    with inner have "length sig - 1 + 1 < length sig" by blast
    then show False by simp
  qed
  from keep first final
  have ends: "cleaned ! 0 = sig ! 0" "cleaned ! (length sig - 1) = sig ! (length sig - 1)"
    by blast+
  from c len inner keep first final ends show ?thesis by blast
qed

lemma np_std_examples:
  "np_std [0, 10, 15, 10, 0] = 6"
  "np_std [0, 0, 100, 0, 0] = 40"
proof -
  have "np_std [0, 10, 15, 10, 0] = sqrt (6\<^sup>2)"
    by (simp add: np_std_def np_mean_def)
  then show "np_std [0, 10, 15, 10, 0] = 6" by (simp only: real_sqrt_abs abs_numeral)
  have "np_std [0, 0, 100, 0, 0] = sqrt (40\<^sup>2)"
    by (simp add: np_std_def np_mean_def)
  then show "np_std [0, 0, 100, 0, 0] = 40" by (simp only: real_sqrt_abs abs_numeral)
qed

lemma find_peaks_examples:
  "find_peaks [0, 10, 15, 10, 0] t = (if t \<le> 5 then [2] else [])"
  "find_peaks [0, 0, 100, 0, 0] t = (if t \<le> 100 then [2] else [])"
  unfolding find_peaks_def local_maxima_examples by simp_all

text \<open>The example of the specification: the spike of 100 is detected for every
  \<open>n_sigma\<close> up to 2.5 and replaced by the mean of its neighbours.\<close>

lemma clean_sig_spike_example:
  assumes "n_sigma \<le> 5 / 2"
  shows "clean_sig [0, 0, 100, 0, 0] n_sigma = Inr ([0, 0, 0, 0, 0], [2])"
proof -
  have "find_peaks (map abs [0, 0, 100, 0, 0]) (np_std [0, 0, 100, 0, 0] * n_sigma) = [2]"
    using assms by (simp add: np_std_examples find_peaks_examples)
  then show ?thesis
    unfolding clean_sig_def by (simp add: np_getitem_def np_mean_def)
qed

text \<open>A signal whose largest sample is the first one: the spike of 100 at position 2
  is replaced, the 200 at position 0 stays.\<close>

lemma clean_sig_boundary_example:
  "clean_sig [200, 0, 100, 0, 0] 1 = Inr ([200, 0, 0, 0, 0], [2])"
proof -
  have "np_std [200, 0, 100, 0, 0] = sqrt (80\<^sup>2)"
    by (simp add: np_std_def np_mean_def)
  then have std: "np_std [200, 0, 100, 0, 0] = 80"
    by (simp only: real_sqrt_abs abs_numeral)
  have "local_maxima_from [200, 0, 100, 0, 0] 1 = [2]"
    by (simp add: local_maxima_from.simps look_ahead.simps)
  then have "find_peaks [200, 0, 100, 0, 0] 80 = [2]"
    unfolding find_peaks_def by simp
  then have "find_peaks (map abs [200, 0, 100, 0, 0]) (np_std [200, 0, 100, 0, 0] * 1) = [2]"
    by (simp add: std)
  then show ?thesis
    unfolding clean_sig_def by (simp add: np_getitem_def np_mean_def)
qed

theorem clean_sig_peaks_interior_witness:
  "clean_sig [200, 0, 100, 0, 0] 1 = Inr ([200, 0, 0, 0, 0], [2])
   \<and> 1 \<le> (2::nat) \<and> (2::nat) + 1 < length [200, 0, 100, 0, 0 :: real]
   \<and> (0::nat) \<notin> set [2]
   \<and> [200, 0, 0, 0, 0 :: real] ! 0 = [200, 0, 100, 0, 0] ! 0"
proof -
  from clean_sig_peaks_interior [of "[200, 0, 100, 0, 0]" 1]
  obtain cleaned i_pks where
    c: "clean_sig [200, 0, 100, 0, 0] 1 = Inr (cleaned, i_pks)"
    and r: "\<forall>i \<in> set i_pks. 1 \<le> i \<and> i + 1 < length [200, 0, 100, 0, 0 :: real]"
    and z: "0 \<notin> set i_pks"
    and k: "cleaned ! 0 = [200, 0, 100, 0, 0 :: real] ! 0"
    by blast
  from c have e: "i_pks = [2]" "cleaned = [200, 0, 0, 0, 0]"
    by (simp_all add: clean_sig_boundary_example)
  from r e(1) have "1 \<le> (2::nat) \<and> (2::nat) + 1 < length [200, 0, 100, 0, 0 :: real]"
    by simp
  with c z k e show ?thesis by simp
qed

text \<open>
  Claim C3 at the signal \<open>[0, 10, 15, 10, 0]\<close> with \<open>n_sigma = 1\<close>. The standard
  deviation is 6. The sample 15 at position 2 is a local maximum in absolute value and
  exceeds \<open>1 \<times> 6\<close>, so the claim has it detected and replaced by 10. The code passes the
  limit as \<open>threshold\<close>, which \<open>find_peaks\<close> compares with the distance of the peak to its
  neighbours, here 5: nothing is detected and the signal comes back unchanged.
\<close>

theorem clean_sig_misses_spec_outlier:
  "np_std [0, 10, 15, 10, 0] = 6
   \<and> spec_detected [0, 10, 15, 10, 0] 1 2
   \<and> clean_sig [0, 10, 15, 10, 0] 1 = Inr ([0, 10, 15, 10, 0], [])"
proof -
  have a: "spec_detected [0, 10, 15, 10, 0] 1 2"
    by (simp add: spec_detected_def np_std_examples)
  have "find_peaks (map abs [0, 10, 15, 10, 0]) (np_std [0, 10, 15, 10, 0] * 1) = []"
    by (simp add: np_std_examples find_peaks_examples)
  then have b: "clean_sig [0, 10, 15, 10, 0] 1 = Inr ([0, 10, 15, 10, 0], [])"
    unfolding clean_sig_def by simp
  from a b show ?thesis by (simp add: np_std_examples)
qed

subsection \<open>\<open>read_data_string\<close>\<close>

lemma split_acc_nonempty: "split_acc sep field s \<noteq> []"
  by (induction sep field s rule: split_acc.induct) auto

lemma dom_foldl_update:
  "length headers = length vals \<Longrightarrow>
     dom (foldl (\<lambda>line_data (header, value). line_data(header \<mapsto> value)) m
            (zip headers vals))
       = dom m \<union> set headers"
proof (induction headers arbitrary: vals m)
  case Nil
  then show ?case by simp
next
  case (Cons h hs)
  then obtain v vs where v: "vals = v # vs" "length hs = length vs"
    by (cases vals) auto
  from Cons.IH [OF v(2), of "m(h \<mapsto> v)"] show ?case
    by (auto simp: v(1))
qed

lemma dom_line_dict:
  "length headers = length vals \<Longrightarrow> dom (line_dict headers vals) = set headers"
  by (simp add: line_dict_def dom_foldl_update)

lemma data_loop_filter:
  "data_loop delimiter headers lines data
     = data @ map (\<lambda>line. line_dict headers (str_split line delimiter))
                (filter (\<lambda>line. length (str_split line delimiter) = length headers) lines)"
  by (induction lines arbitrary: data) auto

text \<open>
  Claim C9. With non-empty separators \<open>read_data_string\<close> returns a list and raises
  nothing. The headers are the fields of the first line, or \<open>'1', '2', ...\<close> for as many
  fields as the first line has. The result holds, in order, one dictionary for each data
  line that has as many fields as there are headers, and no entry for any other line;
  the keys of every dictionary are exactly the headers.
\<close>

theorem read_data_string_rows:
  assumes "newline \<noteq> []" and "delimiter \<noteq> []"
  shows "\<exists>data headers lines.
           read_data_string text delimiter newline has_headerline = Inr data
         \<and> headers = (if has_headerline
                       then str_split (hd (str_split text newline)) delimiter
                       else map (\<lambda>i. str_int (int i + 1))
                              [0..<length (str_split (hd (str_split text newline)) delimiter)])
         \<and> lines = (if has_headerline then tl (str_split text newline)
                     else str_split text newline)
         \<and> data = map (\<lambda>line. line_dict headers (str_split line delimiter))
                    (filter (\<lambda>line. length (str_split line delimiter) = length headers) lines)
         \<and> (\<forall>d \<in> set data. dom d = set headers)"
proof -
  let ?all = "str_split text newline"
  let ?headers = "generate_headers ?all delimiter has_headerline"
  let ?lines = "if has_headerline then tl ?all else ?all"
  let ?data = "map (\<lambda>line. line_dict ?headers (str_split line delimiter))
                 (filter (\<lambda>line. length (str_split line delimiter) = length ?headers) ?lines)"
  have r: "read_data_string text delimiter newline has_headerline = Inr ?data"
    using assms by (simp add: read_data_string_def Let_def data_loop_filter)
  have h: "?headers = (if has_headerline
                       then str_split (hd ?all) delimiter
                       else map (\<lambda>i. str_int (int i + 1))
                              [0..<length (str_split (hd ?all) delimiter)])"
    by (simp add: generate_headers_def)
  have k: "\<forall>d \<in> set ?data. dom d = set ?headers"
    by (auto simp: dom_line_dict)
  from r h k show ?thesis by (intro exI [of _ ?data] exI [of _ ?headers] exI [of _ ?lines]) simp
qed

lemma str_split_examples:
  "str_split ''a,b;1,2;3;4,5'' '';'' = [''a,b'', ''1,2'', ''3'', ''4,5'']"
  "str_split ''x,y;3;4,5'' '';'' = [''x,y'', ''3'', ''4,5'']"
  "str_split ''a,b'' '','' = [''a'', ''b'']"
  "str_split ''x,y'' '','' = [''x'', ''y'']"
  "str_split ''1,2'' '','' = [''1'', ''2'']"
  "str_split ''3'' '','' = [''3'']"
  "str_split ''4,5'' '','' = [''4'', ''5'']"
  by (simp_all add: str_split_def)

theorem read_data_string_rows_witness:
  "read_data_string ''a,b;1,2;3;4,5'' '','' '';'' True
     = Inr [line_dict [''a'', ''b''] [''1'', ''2''], line_dict [''a'', ''b''] [''4'', ''5'']]
   \<and> dom (line_dict [''a'', ''b''] [''1'', ''2'']) = {''a'', ''b''}
   \<and> dom (line_dict [''a'', ''b''] [''4'', ''5'']) = {''a'', ''b''}
   \<and> read_data_string ''x,y;3;4,5'' '','' '';'' False
     = Inr [line_dict [''1'', ''2''] [''x'', ''y''], line_dict [''1'', ''2''] [''4'', ''5'']]
   \<and> dom (line_dict [''1'', ''2''] [''x'', ''y'']) = {''1'', ''2''}"
proof -
  have a: "\<exists>data. read_data_string ''a,b;1,2;3;4,5'' '','' '';'' True = Inr data
          \<and> data = [line_dict [''a'', ''b''] [''1'', ''2''], line_dict [''a'', ''b''] [''4'', ''5'']]
          \<and> (\<forall>d \<in> set data. dom d = {''a'', ''b''})"
    using read_data_string_rows [of "'';''" "'',''" "''a,b;1,2;3;4,5''" True]
    by (simp add: str_split_examples)
  have b: "\<exists>data. read_data_string ''x,y;3;4,5'' '','' '';'' False = Inr data
          \<and> data = [line_dict [''1'', ''2''] [''x'', ''y''], line_dict [''1'', ''2''] [''4'', ''5'']]
          \<and> (\<forall>d \<in> set data. dom d = {''1'', ''2''})"
    using read_data_string_rows [of "'';''" "'',''" "''x,y;3;4,5''" False]
    by (simp add: str_split_examples str_int_def str_nat.simps digit_char_def)
  from a b show ?thesis by auto
qed

subsection \<open>Order cuts\<close>

lemma first_index_found:
  "\<exists>x \<in> set xs. P x \<Longrightarrow>
     first_index P xs < length xs \<and> P (xs ! first_index P xs)
     \<and> (\<forall>m < first_index P xs. \<not> P (xs ! m))"
proof (induction xs)
  case Nil
  then show ?case by simp
next
  case (Cons x xs)
  show ?case
  proof (cases "P x")
    case True
    then show ?thesis by simp
  next
    case False
    with Cons.prems have "\<exists>x \<in> set xs. P x" by simp
    from Cons.IH [OF this] False show ?thesis
      by (auto simp: less_Suc_eq_0_disj)
  qed
qed

lemma np_argmin_least:
  fixes xs :: "real list"
  assumes "xs \<noteq> []"
  shows "np_argmin xs < length xs
         \<and> (\<forall>m < length xs. xs ! np_argmin xs \<le> xs ! m)
         \<and> (\<forall>m < np_argmin xs. xs ! np_argmin xs < xs ! m)"
proof -
  let ?P = "\<lambda>x. x = Min (set xs)"
  from assms have "Min (set xs) \<in> set xs" by (intro Min_in) simp_all
  then have "\<exists>x \<in> set xs. ?P x" by blast
  from first_index_found [OF this]
  have f: "np_argmin xs < length xs" "xs ! np_argmin xs = Min (set xs)"
    "\<forall>m < np_argmin xs. xs ! m \<noteq> Min (set xs)"
    by (simp_all add: np_argmin_def)
  have le: "Min (set xs) \<le> xs ! m" if "m < length xs" for m
    using that by (intro Min_le) simp_all
  have "\<forall>m < np_argmin xs. xs ! np_argmin xs < xs ! m"
  proof (intro allI impI)
    fix m assume m: "m < np_argmin xs"
    with f(1) have "m < length xs" by simp
    then have "Min (set xs) \<le> xs ! m" by (rule le)
    moreover from f(3) m have "xs ! m \<noteq> Min (set xs)" by blast
    ultimately have "Min (set xs) < xs ! m" by auto
    then show "xs ! np_argmin xs < xs ! m" by (simp only: f(2))
  qed
  moreover have "\<forall>m < length xs. xs ! np_argmin xs \<le> xs ! m"
    using le by (simp only: f(2)) blast
  ultimately show ?thesis using f(1) by blast
qed

lemma find_nearest_spec:
  assumes "freqs \<noteq> []"
  shows "find_nearest freqs f = Inr (np_argmin (map (\<lambda>a. \<bar>a - f\<bar>) freqs))
         \<and> spec_nearest_row freqs f (np_argmin (map (\<lambda>a. \<bar>a - f\<bar>) freqs))"
proof -
  let ?d = "map (\<lambda>a. \<bar>a - f\<bar>) freqs"
  let ?i = "np_argmin ?d"
  from assms have "?d \<noteq> []" by simp
  from np_argmin_least [OF this]
  have a: "?i < length ?d"
    and b: "\<forall>m < length ?d. ?d ! ?i \<le> ?d ! m"
    and c: "\<forall>m < ?i. ?d ! ?i < ?d ! m"
    by blast+
  from a have i: "?i < length freqs" by simp
  then have di: "?d ! ?i = \<bar>freqs ! ?i - f\<bar>" by (rule nth_map)
  have "spec_nearest_row freqs f ?i"
    unfolding spec_nearest_row_def
  proof (intro conjI allI impI)
    show "?i < length freqs" by (rule i)
  next
    fix m assume m: "m < length freqs"
    then have "?d ! m = \<bar>freqs ! m - f\<bar>" by (rule nth_map)
    moreover from b m have "?d ! ?i \<le> ?d ! m" by simp
    ultimately show "\<bar>freqs ! ?i - f\<bar> \<le> \<bar>freqs ! m - f\<bar>"
      by (simp only: di)
  next
    fix m assume m: "m < ?i"
    with i have "m < length freqs" by simp
    then have "?d ! m = \<bar>freqs ! m - f\<bar>" by (rule nth_map)
    moreover from c m have "?d ! ?i < ?d ! m" by blast
    ultimately show "\<bar>freqs ! ?i - f\<bar> < \<bar>freqs ! m - f\<bar>"
      by (simp only: di)
  qed
  with assms show ?thesis by (simp add: find_nearest_def)
qed

lemma collect_map_Inr:
  "\<forall>x \<in> set xs. f x = Inr (g x) \<Longrightarrow> collect (map f xs) = Inr (map g xs)"
  by (induction xs) auto

lemma order_cut_rows:
  assumes "freqs \<noteq> []" and "length Pxx = length freqs"
    and "\<forall>row \<in> set Pxx. length input_sig \<le> length row"
  shows "\<exists>amp. order_cut input_sig freqs Pxx input_to_hz order
                 = Inr \<lparr>x_data = input_sig, y_data = amp, title_order = order\<rparr>
           \<and> length amp = length input_sig
           \<and> (\<forall>j<length input_sig. \<exists>i.
                  find_nearest freqs (input_sig ! j * input_to_hz * order) = Inr i
                \<and> spec_nearest_row freqs (input_sig ! j * input_to_hz * order) i
                \<and> amp ! j = Pxx ! i ! j)"
proof -
  let ?n = "length input_sig"
  let ?fs = "map (\<lambda>in_sig. in_sig * input_to_hz * order) input_sig"
  let ?near = "\<lambda>f. np_argmin (map (\<lambda>a. \<bar>a - f\<bar>) freqs)"
  let ?rows = "map ?near ?fs"
  let ?amp = "map (\<lambda>(i, j). Pxx ! i ! j) (zip ?rows [0..<?n])"
  have rows: "collect (map (\<lambda>f. find_nearest freqs f) ?fs) = Inr ?rows"
    using find_nearest_spec [OF assms(1)] by (intro collect_map_Inr) simp
  have cell: "getitem2 Pxx i j = Inr (Pxx ! i ! j)"
    if "(i, j) \<in> set (zip ?rows [0..<?n])" for i j
  proof -
    from that have "i \<in> set ?rows" and j: "j < ?n"
      by (auto dest: set_zip_leftD set_zip_rightD)
    then obtain f where "i = ?near f" by auto
    with find_nearest_spec [OF assms(1), of f] have "i < length freqs"
      by (simp add: spec_nearest_row_def)
    with assms(2) have i: "i < length Pxx" by simp
    then have "Pxx ! i \<in> set Pxx" by simp
    with assms(3) j have "j < length (Pxx ! i)" by fastforce
    with i show ?thesis by (simp add: getitem2_def)
  qed
  have "collect (map (\<lambda>(i, j). getitem2 Pxx i j) (zip ?rows [0..<?n])) = Inr ?amp"
    using cell by (intro collect_map_Inr) auto
  with rows have r: "order_cut input_sig freqs Pxx input_to_hz order
      = Inr \<lparr>x_data = input_sig, y_data = ?amp, title_order = order\<rparr>"
    by (simp add: order_cut_def)
  have len: "length ?amp = ?n" by simp
  have each: "\<forall>j<?n. \<exists>i.
        find_nearest freqs (input_sig ! j * input_to_hz * order) = Inr i
      \<and> spec_nearest_row freqs (input_sig ! j * input_to_hz * order) i
      \<and> ?amp ! j = Pxx ! i ! j"
  proof (intro allI impI)
    fix j assume j: "j < ?n"
    let ?f = "input_sig ! j * input_to_hz * order"
    from j have "?amp ! j = Pxx ! ?near ?f ! j" by simp
    with find_nearest_spec [OF assms(1), of ?f]
    show "\<exists>i. find_nearest freqs ?f = Inr i \<and> spec_nearest_row freqs ?f i
             \<and> ?amp ! j = Pxx ! i ! j"
      by (intro exI [of _ "?near ?f"]) simp
  qed
  from r len each show ?thesis by blast
qed

lemma collect_Inr_nth:
  "\<forall>x \<in> set xs. \<exists>y. f x = Inr y \<Longrightarrow>
     \<exists>ys. collect (map f xs) = Inr ys \<and> length ys = length xs
          \<and> (\<forall>k<length xs. f (xs ! k) = Inr (ys ! k))"
proof (induction xs)
  case Nil
  then show ?case by simp
next
  case (Cons x xs)
  then obtain y where y: "f x = Inr y" by auto
  from Cons obtain ys where ys: "collect (map f xs) = Inr ys" "length ys = length xs"
    "\<forall>k<length xs. f (xs ! k) = Inr (ys ! k)" by auto
  have "\<forall>k<length (x # xs). f ((x # xs) ! k) = Inr ((y # ys) ! k)"
  proof (intro allI impI)
    fix k assume "k < length (x # xs)"
    then show "f ((x # xs) ! k) = Inr ((y # ys) ! k)"
      using y ys(3) by (cases k) auto
  qed
  with y ys(1,2) show ?case by (intro exI [of _ "y # ys"]) simp
qed

text \<open>
  The loop body and the loop. For every order and every input-speed bin \<open>j\<close>, the
  expected frequency is the bin's speed times \<open>input_to_hz\<close> times the order; the located
  row is the position of the frequency-axis entry with the smallest absolute difference to
  it, the lowest position on a tie; and the order cut pairs the speed bins (\<open>x_data\<close>)
  with the spectrogram values at the located rows (\<open>y_data\<close>). With at least two orders
  the returned figure holds one such cut per order, in order. For order 1 and 600 RPM the
  expected frequency is 10 Hz and the located row is the entry nearest 10.
\<close>

theorem order_cut_plot_spec:
  assumes "freqs \<noteq> []" and "length Pxx = length freqs"
    and "\<forall>row \<in> set Pxx. length input_sig \<le> length row"
  shows "(\<exists>amp. order_cut input_sig freqs Pxx input_to_hz order
                 = Inr \<lparr>x_data = input_sig, y_data = amp, title_order = order\<rparr>
           \<and> length amp = length input_sig
           \<and> (\<forall>j<length input_sig. \<exists>i.
                  find_nearest freqs (input_sig ! j * input_to_hz * order) = Inr i
                \<and> spec_nearest_row freqs (input_sig ! j * input_to_hz * order) i
                \<and> amp ! j = Pxx ! i ! j))
       \<and> (2 \<le> length orders \<longrightarrow>
            (\<exists>fig. order_cut_plot input_sig freqs Pxx orders input_to_hz = Inr fig
               \<and> length fig = length orders
               \<and> (\<forall>k<length orders.
                    order_cut input_sig freqs Pxx input_to_hz (orders ! k) = Inr (fig ! k))))
       \<and> (\<exists>i. find_nearest freqs (600 * (1 / 60) * 1) = Inr i \<and> spec_nearest_row freqs 10 i)"
proof -
  note rows = order_cut_rows [OF assms]
  have fig: "2 \<le> length orders \<longrightarrow>
            (\<exists>fig. order_cut_plot input_sig freqs Pxx orders input_to_hz = Inr fig
               \<and> length fig = length orders
               \<and> (\<forall>k<length orders.
                    order_cut input_sig freqs Pxx input_to_hz (orders ! k) = Inr (fig ! k)))"
  proof
    assume n: "2 \<le> length orders"
    have "\<forall>order \<in> set orders. \<exists>y. order_cut input_sig freqs Pxx input_to_hz order = Inr y"
      using rows by blast
    moreover from n have "length orders \<noteq> 0" "length orders \<noteq> 1" by auto
    ultimately show "\<exists>fig. order_cut_plot input_sig freqs Pxx orders input_to_hz = Inr fig
               \<and> length fig = length orders
               \<and> (\<forall>k<length orders.
                    order_cut input_sig freqs Pxx input_to_hz (orders ! k) = Inr (fig ! k))"
      using collect_Inr_nth [of orders "order_cut input_sig freqs Pxx input_to_hz"]
      by (simp only: order_cut_plot_def if_False) 
  qed
  have ten: "\<exists>i. find_nearest freqs (600 * (1 / 60) * 1) = Inr i \<and> spec_nearest_row freqs 10 i"
    using find_nearest_spec [OF assms(1), of 10] by simp
  from rows [of input_to_hz order] fig ten show ?thesis by blast
qed

text \<open>The same input evaluated: at 600 and 1200 RPM, order 1 reads rows 2 and 4 (10 and
  20 Hz), order 2 reads row 4 twice (20 Hz and, for 40 Hz, the last row).\<close>

lemma order_cut_plot_example:
  "order_cut_plot [600, 1200] [0, 5, 10, 15, 20]
     [[1, 2], [3, 4], [5, 6], [7, 8], [9, 10]] [1, 2] (1 / 60)
   = Inr [\<lparr>x_data = [600, 1200], y_data = [5, 10], title_order = 1\<rparr>,
          \<lparr>x_data = [600, 1200], y_data = [9, 10], title_order = 2\<rparr>]"
  by (simp add: order_cut_plot_def order_cut_def find_nearest_def np_argmin_def getitem2_def)

theorem order_cut_plot_spec_witness:
  "order_cut_plot [600, 1200] [0, 5, 10, 15, 20]
     [[1, 2], [3, 4], [5, 6], [7, 8], [9, 10]] [1, 2] (1 / 60)
   = Inr [\<lparr>x_data = [600, 1200], y_data = [5, 10], title_order = 1\<rparr>,
          \<lparr>x_data = [600, 1200], y_data = [9, 10], title_order = 2\<rparr>]
   \<and> find_nearest [0, 5, 10, 15, 20] (600 * (1 / 60) * 1) = Inr 2"
proof -
  have h: "[0, 5, 10, 15, 20 :: real] \<noteq> []"
    "length [[1, 2], [3, 4], [5, 6], [7, 8], [9, 10 :: real]] = length [0, 5, 10, 15, 20 :: real]"
    "\<forall>row \<in> set [[1, 2], [3, 4], [5, 6], [7, 8], [9, 10 :: real]].
         length [600, 1200 :: real] \<le> length row"
    by simp_all
  have n: "(2::nat) \<le> length [1, 2 :: real]" by simp
  from order_cut_plot_spec [OF h, of "1 / 60" 1 "[1, 2]"] n
  obtain fig i where
    fig: "order_cut_plot [600, 1200] [0, 5, 10, 15, 20]
            [[1, 2], [3, 4], [5, 6], [7, 8], [9, 10]] [1, 2] (1 / 60) = Inr fig"
    and i: "find_nearest [0, 5, 10, 15, 20] (600 * (1 / 60) * 1) = Inr i"
    by blast
  from fig have "fig = [\<lparr>x_data = [600, 1200], y_data = [5, 10], title_order = 1\<rparr>,
          \<lparr>x_data = [600, 1200], y_data = [9, 10], title_order = 2\<rparr>]"
    by (simp add: order_cut_plot_example)
  moreover from i have "i = 2"
    by (simp add: find_nearest_def np_argmin_def)
  ultimately show ?thesis using fig i by simp
qed

lemma order_cut_plot_single_order:
  "order_cut_plot input_sig freqs Pxx [order] input_to_hz = Inl TypeError"
  by (simp add: order_cut_plot_def)

text \<open>
  Claim C1 at one requested order: the speeds 600 and 1200 RPM, the frequency axis
  \<open>[0, 5, 10, 15, 20]\<close> and the single order 1. The loop body computes the cut the claim
  describes, the spectrogram values at the rows of 10 Hz and 20 Hz. The function does not
  return it: for one row \<open>plt.subplots\<close> gives a single axes object, the loop header
  \<open>zip(axes, orders)\<close> cannot iterate over it, and the call ends in a \<open>TypeError\<close>
  before the body runs.
\<close>

theorem order_cut_plot_one_order_fails:
  "order_cut_plot [600, 1200] [0, 5, 10, 15, 20]
     [[1, 2], [3, 4], [5, 6], [7, 8], [9, 10]] [1] (1 / 60) = Inl TypeError
   \<and> order_cut [600, 1200] [0, 5, 10, 15, 20]
       [[1, 2], [3, 4], [5, 6], [7, 8], [9, 10]] (1 / 60) 1
     = Inr \<lparr>x_data = [600, 1200], y_data = [5, 10], title_order = 1\<rparr>
   \<and> find_nearest [0, 5, 10, 15, 20] (600 * (1 / 60) * 1) = Inr 2"
proof -
  have fails: "order_cut_plot [600, 1200] [0, 5, 10, 15, 20]
     [[1, 2], [3, 4], [5, 6], [7, 8], [9, 10]] [1] (1 / 60) = Inl TypeError"
    by (simp add: order_cut_plot_def)
  have body: "order_cut [600, 1200] [0, 5, 10, 15, 20]
       [[1, 2], [3, 4], [5, 6], [7, 8], [9, 10]] (1 / 60) 1
     = Inr \<lparr>x_data = [600, 1200], y_data = [5, 10], title_order = 1\<rparr>"
    by (simp add: order_cut_def find_nearest_def np_argmin_def getitem2_def)
  have row: "find_nearest [0, 5, 10, 15, 20] (600 * (1 / 60) * 1) = Inr 2"
    by (simp add: find_nearest_def np_argmin_def)
  from fails body row show ?thesis by simp
qed

end
